theory Spec2Isabelle
  imports Main "HOL-Library.Char_ord" "HOL-Library.List_Lexorder" "HOL-Library.AList"
    "HOL-Library.Multiset"
begin

section \<open>Python values and string helpers\<close>

text \<open>
  The module \<^verbatim>\<open>src/backend/agent.py\<close> keeps three files under \<^verbatim>\<open>cached_mem/\<close>
  (the registry snapshot \<^verbatim>\<open>checks_last.csv\<close>, the schema snapshot
  \<^verbatim>\<open>schema_cols.json\<close> and the workflow cache \<^verbatim>\<open>workflows.json\<close>) and decides
  on every run which checks of \<^verbatim>\<open>checks/checks.json\<close> are recompiled.

  Strings are ASCII \<^typ>\<open>string\<close>s. A value read from JSON is a \<open>pyval\<close>: \<open>PAtom\<close> is a
  number or a boolean and carries the text that Python's \<^verbatim>\<open>str\<close> gives for it;
  \<open>PNaN\<close> is the float NaN that pandas puts in a cell whose row lacks the column.
\<close>

datatype pyval =
    PNone
  | PNaN
  | PStr string
  | PAtom string
  | PList "pyval list"
  | PDict "(string \<times> pyval) list"

text \<open>
  Library functions whose output format is not the business of this module are taken
  as parameters: the \<^verbatim>\<open>repr\<close> of a nested list or dict, \<^verbatim>\<open>json.dumps(x, sort_keys=True)\<close>,
  the text \<^verbatim>\<open>DataFrame.to_csv\<close> writes for one field (quoting included), and
  \<^verbatim>\<open>hashlib.sha256(...).hexdigest()\<close>.
\<close>

record pylib =
  repr_nested :: "pyval \<Rightarrow> string"
  json_dumps :: "pyval \<Rightarrow> string"
  csv_field :: "pyval \<Rightarrow> string"
  sha256 :: "string \<Rightarrow> string"

text \<open>\<^verbatim>\<open>str(x)\<close>: a string is itself, \<^verbatim>\<open>None\<close> and NaN print as they do in Python.\<close>

fun py_str :: "pylib \<Rightarrow> pyval \<Rightarrow> string" where
  "py_str L PNone = ''None''"
| "py_str L PNaN = ''nan''"
| "py_str L (PStr s) = s"
| "py_str L (PAtom s) = s"
| "py_str L (PList xs) = repr_nested L (PList xs)"
| "py_str L (PDict kvs) = repr_nested L (PDict kvs)"

text \<open>
  \<^verbatim>\<open>str.strip()\<close> removes leading and trailing whitespace; on ASCII the whitespace
  characters are TAB, LF, VT, FF, CR, FS, GS, RS, US and space.
\<close>

definition is_space :: "char \<Rightarrow> bool" where
  "is_space c = (c \<in> set [CHR 0x09, CHR 0x0A, CHR 0x0B, CHR 0x0C, CHR 0x0D,
                           CHR 0x1C, CHR 0x1D, CHR 0x1E, CHR 0x1F, CHR 0x20])"

definition strip :: "string \<Rightarrow> string" where
  "strip s = rev (dropWhile is_space (rev (dropWhile is_space s)))"

definition lower_char :: "char \<Rightarrow> char" where
  "lower_char c =
     (if CHR ''A'' \<le> c \<and> c \<le> CHR ''Z'' then char_of (of_char c + (32::nat)) else c)"

definition lower :: "string \<Rightarrow> string" where
  "lower s = map lower_char s"

text \<open>\<^verbatim>\<open>s.split(d)\<close> for a one-character separator: always at least one piece.\<close>

fun split_acc :: "char \<Rightarrow> string \<Rightarrow> string \<Rightarrow> string list" where
  "split_acc d acc [] = [rev acc]"
| "split_acc d acc (c # cs) =
     (if c = d then rev acc # split_acc d [] cs else split_acc d (c # acc) cs)"

definition split :: "char \<Rightarrow> string \<Rightarrow> string list" where
  "split d s = split_acc d [] s"

text \<open>\<^verbatim>\<open>sep.join(parts)\<close>.\<close>

fun join :: "string \<Rightarrow> string list \<Rightarrow> string" where
  "join sep [] = []"
| "join sep [p] = p"
| "join sep (p # q # ps) = p @ sep @ join sep (q # ps)"

section \<open>Target-table normalisation\<close>

text \<open>
  \<^verbatim>\<open>
  def parse_targets(target_table: Any) -> List[str]:
      if target_table is None:
          return []
      if isinstance(target_table, list):
          return [str(x).strip().lower() for x in target_table]
      if isinstance(target_table, str):
          return [x.strip().lower() for x in target_table.split(",") if x.strip()]
      # fallback
      return [str(target_table).strip().lower()]
  \<close>
\<close>

fun parse_targets :: "pylib \<Rightarrow> pyval \<Rightarrow> string list" where
  "parse_targets L PNone = []"
| "parse_targets L (PList xs) = map (\<lambda>x. lower (strip (py_str L x))) xs"
| "parse_targets L (PStr s) =
     map (\<lambda>x. lower (strip x)) (filter (\<lambda>x. strip x \<noteq> []) (split (CHR '','') s))"
| "parse_targets L v = [lower (strip (py_str L v))]"

section \<open>The registry as a data frame\<close>

text \<open>
  \<^verbatim>\<open>pd.DataFrame(checks)\<close> on a list of JSON objects: the columns are the keys in the
  order in which they first appear, and a row that lacks a column holds NaN there.
\<close>

type_synonym row = "(string \<times> pyval) list"

record dataframe =
  columns :: "string list"
  rows :: "row list"

fun first_seen :: "'a list \<Rightarrow> 'a list \<Rightarrow> 'a list" where
  "first_seen seen [] = rev seen"
| "first_seen seen (x # xs) =
     (if x \<in> set seen then first_seen seen xs else first_seen (x # seen) xs)"

definition cell :: "row \<Rightarrow> string \<Rightarrow> pyval" where
  "cell r c = (case map_of r c of None \<Rightarrow> PNaN | Some v \<Rightarrow> v)"

definition DataFrame :: "row list \<Rightarrow> dataframe" where
  "DataFrame checks =
     (let cols = first_seen [] (concat (map (map fst) checks))
      in \<lparr>columns = cols, rows = map (\<lambda>r. map (\<lambda>c. (c, cell r c)) cols) checks\<rparr>)"

text \<open>\<^verbatim>\<open>df.empty\<close>: no rows or no columns.\<close>

definition df_empty :: "dataframe \<Rightarrow> bool" where
  "df_empty df = (rows df = [] \<or> columns df = [])"

text \<open>\<^verbatim>\<open>row.get(key)\<close> on a row of the frame: \<^verbatim>\<open>None\<close> when the frame has no such column.\<close>

definition row_get :: "row \<Rightarrow> string \<Rightarrow> pyval" where
  "row_get r k = (case map_of r k of None \<Rightarrow> PNone | Some v \<Rightarrow> v)"

text \<open>
  \<^verbatim>\<open>
  def key_for(check_row):
      return f"{check_row.get('check_id')}::{check_row.get('check_name')}"
  \<close>
\<close>

definition key_for :: "pylib \<Rightarrow> row \<Rightarrow> string" where
  "key_for L check_row =
     py_str L (row_get check_row ''check_id'') @ ''::'' @ py_str L (row_get check_row ''check_name'')"

section \<open>Canonical CSV\<close>

text \<open>
  \<^verbatim>\<open>
  def _stable_csv(df):
      df2 = df.copy()
      cols = sorted(df2.columns.tolist())
      df2 = df2[cols]
      for c in df2.columns:
          df2[c] = df2[c].apply(lambda x: json.dumps(x, sort_keys=True)
                                          if isinstance(x, (list, dict)) else x)
      df2["_sortkey"] = df2.astype(str).agg("|".join, axis=1)
      df2 = df2.sort_values("_sortkey").drop(columns=["_sortkey"])
      return df2.to_csv(index=False, lineterminator="\n")
  \<close>
  The sort key of a row is computed from all sorted columns; assigning the column
  \<^verbatim>\<open>_sortkey\<close> replaces a column of that name, and the drop removes it before the CSV
  is written. \<^verbatim>\<open>sort_values\<close> orders the rows by the key column alone: the new order
  is computed from the keys and nothing else. It is modelled by \<open>sort_key\<close>, the stable
  insertion sort, which is also what the default sort of pandas does on a short column;
  where all keys differ every sort gives the same result.
\<close>

fun jsonify :: "pylib \<Rightarrow> pyval \<Rightarrow> pyval" where
  "jsonify L (PList xs) = PStr (json_dumps L (PList xs))"
| "jsonify L (PDict kvs) = PStr (json_dumps L (PDict kvs))"
| "jsonify L v = v"

definition csv_line :: "string list \<Rightarrow> string" where
  "csv_line fs = join '','' fs @ [CHR 0x0A]"

definition sortkey :: "pylib \<Rightarrow> string list \<Rightarrow> row \<Rightarrow> string" where
  "sortkey L cols r = join ''|'' (map (\<lambda>c. py_str L (jsonify L (cell r c))) cols)"

definition stable_csv :: "pylib \<Rightarrow> dataframe \<Rightarrow> string" where
  "stable_csv L df =
     (let cols = sort (columns df);
          out_cols = filter (\<lambda>c. c \<noteq> ''_sortkey'') cols;
          sorted_rows = sort_key (sortkey L cols) (rows df)
      in csv_line (map (\<lambda>c. csv_field L (PStr c)) out_cols)
         @ concat (map (\<lambda>r. csv_line (map (\<lambda>c. csv_field L (jsonify L (cell r c))) out_cols))
                       sorted_rows))"

section \<open>Persisted state\<close>

text \<open>
  The files the run reads and writes. A JSON file is absent (\<open>None\<close>), holds text
  that \<^verbatim>\<open>json.load\<close> cannot parse (\<open>Unparseable\<close>), or holds a JSON value
  (\<open>Parsed\<close>). The registry source \<open>checks_json\<close> is such a file; the JSON values it
  may hold are \<^verbatim>\<open>null\<close>, a string, number or boolean, an object whose values are
  strings, numbers or booleans, an array of such scalars, and an array of objects
  (the registry proper). Arrays and objects of other content are outside the model.
  A table of \<^verbatim>\<open>data/\<close> is absent, unreadable for \<^verbatim>\<open>pd.read_csv\<close>, or has a header.
  For the two JSON files under \<^verbatim>\<open>cached_mem/\<close>, \<^verbatim>\<open>json.dump\<close> followed by
  \<^verbatim>\<open>json.load\<close> gives the value back (control characters are escaped inside JSON
  strings), and the parsed workflow cache has the shape that the annotation of
  \<^verbatim>\<open>load_workflows\<close> gives it, a dict of lists of artifacts. The registry snapshot is
  a text file, held as the characters on disk. A file that exists can be opened, and a
  write succeeds. \<open>writes\<close> logs the path of every file written, in order.
\<close>

datatype scalar = SStr string | SNum string

datatype registry_doc =
    DNull
  | DScalar scalar
  | DObject "(string \<times> scalar) list"
  | DScalars "scalar list"
  | DObjects "row list"

datatype csv_file = Unreadable | Header "string list"

datatype 'j json_file = Unparseable | Parsed 'j

type_synonym schema = "(string \<times> string list) list"

record 'a artifact =
  atype :: string
  payload :: 'a
  compiled_at :: string
  checks_hash :: string
  schema_cols :: schema

type_synonym 'a workflows = "(string \<times> 'a artifact list) list"

record 'a fs =
  checks_json :: "registry_doc json_file option"
  data_dir :: "string \<Rightarrow> csv_file option"
  checks_last_csv :: "string option"
  schema_cols_cache :: "schema json_file option"
  workflow_cache :: "'a workflows json_file option"
  writes :: "string list"

datatype error =
    FileNotFoundError
  | JSONDecodeError string
  | ValueError
  | ReadCsvError string
  | OracleError string
  | IndexError

definition CHECKS_LAST_CSV :: string where "CHECKS_LAST_CSV = ''cached_mem/checks_last.csv''"
definition SCHEMA_COLS_CACHE :: string where "SCHEMA_COLS_CACHE = ''cached_mem/schema_cols.json''"
definition WORKFLOW_CACHE :: string where "WORKFLOW_CACHE = ''cached_mem/workflows.json''"

section \<open>Registry change detector\<close>

text \<open>
  \<^verbatim>\<open>
  def detect_checks_changes():
      if not os.path.exists(CHECKS_JSON):
          raise FileNotFoundError(f"Missing {CHECKS_JSON}")
      with open(CHECKS_JSON, "r", encoding="utf-8") as f:
          checks = json.load(f)
      checks_df = pd.DataFrame(checks)
      if checks_df.empty:
          current_csv = "check_id\n"
      else:
          current_csv = _stable_csv(checks_df)
      if not os.path.exists(CHECKS_LAST_CSV):
          with open(CHECKS_LAST_CSV, "w", encoding="utf-8") as f:
              f.write(current_csv)
          return True, checks_df
      with open(CHECKS_LAST_CSV, "r", encoding="utf-8") as f:
          last_csv = f.read()
      changed = _sha256(current_csv) != _sha256(last_csv)
      if changed:
          with open(CHECKS_LAST_CSV, "w", encoding="utf-8") as f:
              f.write(current_csv)
      return changed, checks_df
  \<close>
  \<^verbatim>\<open>pd.DataFrame\<close> on what \<^verbatim>\<open>json.load\<close> returned: \<^verbatim>\<open>None\<close>, an empty dict and an
  empty list give the empty frame; a scalar and a non-empty dict of scalars raise
  \<^verbatim>\<open>ValueError\<close>; a list of scalars gives one column, labelled 0, with one row for
  every element; a list of dicts gives the frame of \<open>DataFrame\<close>.
\<close>

fun scalar_val :: "scalar \<Rightarrow> pyval" where
  "scalar_val (SStr s) = PStr s"
| "scalar_val (SNum t) = PAtom t"

fun pd_DataFrame :: "registry_doc \<Rightarrow> error + dataframe" where
  "pd_DataFrame DNull = Inr \<lparr>columns = [], rows = []\<rparr>"
| "pd_DataFrame (DScalar x) = Inl ValueError"
| "pd_DataFrame (DObject kvs) =
     (if kvs = [] then Inr \<lparr>columns = [], rows = []\<rparr> else Inl ValueError)"
| "pd_DataFrame (DScalars xs) =
     (if xs = [] then Inr \<lparr>columns = [], rows = []\<rparr>
      else Inr \<lparr>columns = [''0''], rows = map (\<lambda>x. [(''0'', scalar_val x)]) xs\<rparr>)"
| "pd_DataFrame (DObjects checks) = Inr (DataFrame checks)"

text \<open>
  The snapshot is written and read through files opened in text mode with the default
  \<^verbatim>\<open>newline\<close> argument. On a POSIX system the write puts the characters on disk as
  they are; the read turns every CR LF pair and every remaining CR into LF.
\<close>

fun read_text :: "string \<Rightarrow> string" where
  "read_text [] = []"
| "read_text [c] = [if c = CHR 0x0D then CHR 0x0A else c]"
| "read_text (c # d # ds) =
     (if c = CHR 0x0D then
        (if d = CHR 0x0A then CHR 0x0A # read_text ds else CHR 0x0A # read_text (d # ds))
      else c # read_text (d # ds))"

definition write_checks_last :: "string \<Rightarrow> 'a fs \<Rightarrow> 'a fs" where
  "write_checks_last csv s =
     s\<lparr>checks_last_csv := Some csv, writes := writes s @ [CHECKS_LAST_CSV]\<rparr>"

definition current_csv :: "pylib \<Rightarrow> dataframe \<Rightarrow> string" where
  "current_csv L checks_df =
     (if df_empty checks_df then ''check_id'' @ [CHR 0x0A] else stable_csv L checks_df)"

definition detect_checks_changes :: "pylib \<Rightarrow> 'a fs \<Rightarrow> error + (bool \<times> dataframe \<times> 'a fs)" where
  "detect_checks_changes L s =
     (case checks_json s of
        None \<Rightarrow> Inl FileNotFoundError
      | Some Unparseable \<Rightarrow> Inl (JSONDecodeError ''checks/checks.json'')
      | Some (Parsed checks) \<Rightarrow>
          (case pd_DataFrame checks of
             Inl e \<Rightarrow> Inl e
           | Inr checks_df \<Rightarrow>
               (let cur = current_csv L checks_df
                in case checks_last_csv s of
                     None \<Rightarrow> Inr (True, checks_df, write_checks_last cur s)
                   | Some on_disk \<Rightarrow>
                       (let last_csv = read_text on_disk;
                            changed = (sha256 L cur \<noteq> sha256 L last_csv)
                        in Inr (changed, checks_df,
                                if changed then write_checks_last cur s else s)))))"

section \<open>Schema change detector\<close>

text \<open>
  \<^verbatim>\<open>
  def load_csv(name):
      p = os.path.join(DATA_DIR, f"{name}.csv")
      if not os.path.exists(p):
          return pd.DataFrame()
      df = pd.read_csv(p)
      ...   # date columns are parsed inside try/except; the column names stay
      return df
  \<close>
  Only the column names of the loaded table are used by this module.
\<close>

definition load_csv :: "'a fs \<Rightarrow> string \<Rightarrow> error + string list" where
  "load_csv s name =
     (case data_dir s name of
        None \<Rightarrow> Inr []
      | Some Unreadable \<Rightarrow> Inl (ReadCsvError name)
      | Some (Header cols) \<Rightarrow> Inr cols)"

text \<open>
  \<^verbatim>\<open>
  def detect_schema_changes(tables):
      current = {}
      for t in tables:
          df = load_csv(t)
          current[t] = df.columns.astype(str).tolist()
      if not os.path.exists(SCHEMA_COLS_CACHE):
          with open(SCHEMA_COLS_CACHE, "w", encoding="utf-8") as f:
              json.dump(current, f, indent=2)
          return True, current
      with open(SCHEMA_COLS_CACHE, "r", encoding="utf-8") as f:
          prev = json.load(f)
      changed = prev != current
      if changed:
          with open(SCHEMA_COLS_CACHE, "w", encoding="utf-8") as f:
              json.dump(current, f, indent=2)
      return changed, current
  \<close>
  A dict is an association list in insertion order; \<^verbatim>\<open>d[k] = v\<close> is \<open>AList.update\<close>,
  and \<^verbatim>\<open>==\<close> on dicts compares them as mappings (\<open>dict_eq\<close>).
\<close>

fun read_schema :: "'a fs \<Rightarrow> schema \<Rightarrow> string list \<Rightarrow> error + schema" where
  "read_schema s current [] = Inr current"
| "read_schema s current (t # ts) =
     (case load_csv s t of
        Inl e \<Rightarrow> Inl e
      | Inr cols \<Rightarrow> read_schema s (AList.update t cols current) ts)"

definition dict_eq :: "('k \<times> 'v) list \<Rightarrow> ('k \<times> 'v) list \<Rightarrow> bool" where
  "dict_eq a b = list_all (\<lambda>k. map_of a k = map_of b k) (map fst a @ map fst b)"

definition write_schema_cache :: "schema \<Rightarrow> 'a fs \<Rightarrow> 'a fs" where
  "write_schema_cache current s =
     s\<lparr>schema_cols_cache := Some (Parsed current), writes := writes s @ [SCHEMA_COLS_CACHE]\<rparr>"

definition detect_schema_changes :: "string list \<Rightarrow> 'a fs \<Rightarrow> error + (bool \<times> schema \<times> 'a fs)" where
  "detect_schema_changes tables s =
     (case read_schema s [] tables of
        Inl e \<Rightarrow> Inl e
      | Inr current \<Rightarrow>
          (case schema_cols_cache s of
             None \<Rightarrow> Inr (True, current, write_schema_cache current s)
           | Some Unparseable \<Rightarrow> Inl (JSONDecodeError SCHEMA_COLS_CACHE)
           | Some (Parsed prev) \<Rightarrow>
               (let changed = (\<not> dict_eq prev current)
                in Inr (changed, current,
                        if changed then write_schema_cache current s else s))))"

section \<open>Workflow cache\<close>

text \<open>
  \<^verbatim>\<open>
  def load_workflows():
      if not os.path.exists(WORKFLOW_CACHE):
          return {}
      with open(WORKFLOW_CACHE, "r", encoding="utf-8") as f:
          try:
              return json.load(f)
          except Exception:
              return {}

  def save_workflows(wf):
      with open(WORKFLOW_CACHE, "w", encoding="utf-8") as f:
          json.dump(wf, f, indent=2)
  \<close>
  \<open>json_load\<close> is \<^verbatim>\<open>json.load\<close> on an open file; the \<^verbatim>\<open>try\<close> of \<open>load_workflows\<close>
  is the case distinction on its result.
\<close>

definition json_load :: "string \<Rightarrow> 'j json_file \<Rightarrow> error + 'j" where
  "json_load path f = (case f of Unparseable \<Rightarrow> Inl (JSONDecodeError path) | Parsed v \<Rightarrow> Inr v)"

definition load_workflows :: "'a fs \<Rightarrow> error + 'a workflows" where
  "load_workflows s =
     (case workflow_cache s of
        None \<Rightarrow> Inr []
      | Some f \<Rightarrow>
          (case json_load WORKFLOW_CACHE f of
             Inr cached \<Rightarrow> Inr cached
           | Inl e \<Rightarrow> Inr []))"

definition save_workflows :: "'a workflows \<Rightarrow> 'a fs \<Rightarrow> 'a fs" where
  "save_workflows workflows s =
     s\<lparr>workflow_cache := Some (Parsed workflows), writes := writes s @ [WORKFLOW_CACHE]\<rparr>"

section \<open>The run\<close>

text \<open>
  Steps 1 to 4 of \<^verbatim>\<open>main\<close>: both detectors, the cache load and the choice of the
  checks to compile.
  \<^verbatim>\<open>
  checks_changed, checks_df = detect_checks_changes()
  if checks_df.empty:
      target_tables = []
  else:
      all_targets = set()
      for _, row in checks_df.iterrows():
          for t in parse_targets(row.get("target_table")):
              all_targets.add(t)
      target_tables = sorted(all_targets)
  schema_changed, current_schema = detect_schema_changes(target_tables)
  workflows = load_workflows()
  checks_to_compile = []
  if checks_changed or schema_changed:
      changed_tables = set()
      if schema_changed:
          ...   # opens the schema cache and does nothing with it
          changed_tables = set(target_tables)
      for _, row in checks_df.iterrows():
          targets = set(parse_targets(row.get("target_table")))
          if checks_changed:
              checks_to_compile.append(row.to_dict())
          else:
              if targets & changed_tables:
                  checks_to_compile.append(row.to_dict())
  else:
      checks_to_compile = []
  \<close>
  The comment in the source at the point where \<open>changed_tables\<close> is set reads: "We need
  previous to diff exactly, but we didn't retain it. For simplicity: if schema_changed
  True, treat all target tables as changed."
\<close>

definition target_tables_of :: "pylib \<Rightarrow> dataframe \<Rightarrow> string list" where
  "target_tables_of L checks_df =
     (if df_empty checks_df then []
      else sort (remdups (concat (map (\<lambda>row. parse_targets L (row_get row ''target_table''))
                                       (rows checks_df)))))"

definition select_checks :: "pylib \<Rightarrow> bool \<Rightarrow> string set \<Rightarrow> dataframe \<Rightarrow> row list" where
  "select_checks L checks_changed changed_tables checks_df =
     filter (\<lambda>row. if checks_changed then True
                    else set (parse_targets L (row_get row ''target_table'')) \<inter> changed_tables \<noteq> {})
            (rows checks_df)"

definition checks_to_compile :: "pylib \<Rightarrow> bool \<Rightarrow> bool \<Rightarrow> string list \<Rightarrow> dataframe \<Rightarrow> row list" where
  "checks_to_compile L checks_changed schema_changed target_tables checks_df =
     (if checks_changed \<or> schema_changed then
        (let changed_tables = (if schema_changed then set target_tables else {})
         in select_checks L checks_changed changed_tables checks_df)
      else [])"

record 'a plan =
  p_checks_changed :: bool
  p_schema_changed :: bool
  p_checks_df :: dataframe
  p_target_tables :: "string list"
  p_current_schema :: schema
  p_workflows :: "'a workflows"
  p_todo :: "row list"
  p_state :: "'a fs"

definition schedule :: "pylib \<Rightarrow> 'a fs \<Rightarrow> (error \<times> 'a fs) + 'a plan" where
  "schedule L s =
     (case detect_checks_changes L s of
        Inl e \<Rightarrow> Inl (e, s)
      | Inr (checks_changed, checks_df, s1) \<Rightarrow>
          (let target_tables = target_tables_of L checks_df
           in case detect_schema_changes target_tables s1 of
                Inl e \<Rightarrow> Inl (e, s1)
              | Inr (schema_changed, current_schema, s2) \<Rightarrow>
                  (case load_workflows s2 of
                     Inl e \<Rightarrow> Inl (e, s2)
                   | Inr workflows \<Rightarrow>
                       Inr \<lparr>p_checks_changed = checks_changed,
                            p_schema_changed = schema_changed,
                            p_checks_df = checks_df,
                            p_target_tables = target_tables,
                            p_current_schema = current_schema,
                            p_workflows = workflows,
                            p_todo = checks_to_compile L checks_changed schema_changed
                                       target_tables checks_df,
                            p_state = s2\<rparr>)))"

text \<open>
  Step 5. The oracle \<^verbatim>\<open>use_agent\<close> either raises or returns the plan and the execution
  artifact; \<open>clock n\<close> is the text of the \<open>n\<close>-th \<^verbatim>\<open>datetime.now(UTC).isoformat()\<close> of
  the run. The call is not inside a \<^verbatim>\<open>try\<close>: an exception leaves the loop and \<^verbatim>\<open>main\<close>.
  \<^verbatim>\<open>
  compiled = 0
  if checks_to_compile:
      schema_context = {t: current_schema.get(t, []) for t in target_tables}
      for chk in checks_to_compile:
          k = key_for(chk)
          agent_out = use_agent(check_row=chk, schema_cols=schema_context)
          workflows[k] = [
              {"type": "plan", "artifact": agent_out.get("plan", {}),
               "compiled_at": datetime.datetime.now(datetime.UTC).isoformat() + "Z",
               "compiled_against": {
                   "checks_hash": _sha256(_stable_csv(checks_df) if not checks_df.empty else ""),
                   "schema_cols": schema_context}},
              {"type": "execution", "artifact": agent_out.get("execution", {}),
               ... the same stamps ...}]
          compiled += 1
      save_workflows(workflows)
  \<close>
\<close>

type_synonym 'a agent = "row \<Rightarrow> schema \<Rightarrow> string + ('a \<times> 'a)"

definition schema_context_of :: "schema \<Rightarrow> string list \<Rightarrow> schema" where
  "schema_context_of current_schema target_tables =
     map (\<lambda>t. (t, case map_of current_schema t of None \<Rightarrow> [] | Some cols \<Rightarrow> cols)) target_tables"

definition registry_hash :: "pylib \<Rightarrow> dataframe \<Rightarrow> string" where
  "registry_hash L checks_df =
     sha256 L (if \<not> df_empty checks_df then stable_csv L checks_df else [])"

definition entry_for :: "pylib \<Rightarrow> (nat \<Rightarrow> string) \<Rightarrow> dataframe \<Rightarrow> schema \<Rightarrow> nat \<Rightarrow> 'a \<times> 'a
                         \<Rightarrow> 'a artifact list" where
  "entry_for L clock checks_df schema_context compiled agent_out =
     [\<lparr>atype = ''plan'', payload = fst agent_out,
       compiled_at = clock (2 * compiled) @ ''Z'',
       checks_hash = registry_hash L checks_df, schema_cols = schema_context\<rparr>,
      \<lparr>atype = ''execution'', payload = snd agent_out,
       compiled_at = clock (2 * compiled + 1) @ ''Z'',
       checks_hash = registry_hash L checks_df, schema_cols = schema_context\<rparr>]"

fun compile_loop :: "pylib \<Rightarrow> 'a agent \<Rightarrow> (nat \<Rightarrow> string) \<Rightarrow> dataframe \<Rightarrow> schema
                      \<Rightarrow> row list \<Rightarrow> 'a workflows \<times> nat \<Rightarrow> error + ('a workflows \<times> nat)" where
  "compile_loop L use_agent clock checks_df schema_context [] acc = Inr acc"
| "compile_loop L use_agent clock checks_df schema_context (chk # rest) (workflows, compiled) =
     (case use_agent chk schema_context of
        Inl msg \<Rightarrow> Inl (OracleError msg)
      | Inr agent_out \<Rightarrow>
          compile_loop L use_agent clock checks_df schema_context rest
            (AList.update (key_for L chk)
               (entry_for L clock checks_df schema_context compiled agent_out) workflows,
             compiled + 1))"

definition compile_step :: "pylib \<Rightarrow> 'a agent \<Rightarrow> (nat \<Rightarrow> string) \<Rightarrow> 'a plan
                            \<Rightarrow> (error \<times> 'a fs) + ('a workflows \<times> nat \<times> 'a fs)" where
  "compile_step L use_agent clock p =
     (if p_todo p \<noteq> [] then
        (let schema_context = schema_context_of (p_current_schema p) (p_target_tables p)
         in case compile_loop L use_agent clock (p_checks_df p) schema_context (p_todo p)
                   (p_workflows p, 0) of
              Inl e \<Rightarrow> Inl (e, p_state p)
            | Inr (workflows, compiled) \<Rightarrow>
                Inr (workflows, compiled, save_workflows workflows (p_state p)))
      else Inr (p_workflows p, 0, p_state p))"

text \<open>
  Steps 6 and 7 print. Step 7 reads \<^verbatim>\<open>steps[0]\<close> of every cached entry, which raises
  on an entry with no steps; a summary line is the key and the number of steps.
\<close>

fun summary :: "'a workflows \<Rightarrow> error + (string \<times> nat) list" where
  "summary [] = Inr []"
| "summary ((k, steps) # rest) =
     (case steps of
        [] \<Rightarrow> Inl IndexError
      | first # _ \<Rightarrow>
          (case summary rest of
             Inl e \<Rightarrow> Inl e
           | Inr ls \<Rightarrow> Inr ((k, length steps) # ls)))"

record report =
  r_checks_changed :: bool
  r_schema_changed :: bool
  r_scheduled :: "row list"
  r_compiled :: nat
  r_summary :: "(string \<times> nat) list"

definition main :: "pylib \<Rightarrow> 'a agent \<Rightarrow> (nat \<Rightarrow> string) \<Rightarrow> 'a fs \<Rightarrow> (error + report) \<times> 'a fs" where
  "main L use_agent clock s =
     (case schedule L s of
        Inl (e, s') \<Rightarrow> (Inl e, s')
      | Inr p \<Rightarrow>
          (case compile_step L use_agent clock p of
             Inl (e, s') \<Rightarrow> (Inl e, s')
           | Inr (workflows, compiled, s') \<Rightarrow>
               (case summary workflows of
                  Inl e \<Rightarrow> (Inl e, s')
                | Inr ls \<Rightarrow>
                    (Inr \<lparr>r_checks_changed = p_checks_changed p,
                          r_schema_changed = p_schema_changed p,
                          r_scheduled = p_todo p,
                          r_compiled = compiled,
                          r_summary = ls\<rparr>, s'))))"

section \<open>The scheduler and the changed tables in the words of the specification\<close>



section \<open>Concrete inputs\<close>

text \<open>
  A library instance for evaluation. \<^verbatim>\<open>to_csv\<close> writes a string as it is unless it
  holds a comma, a double quote or a line break, in which case it is put in double
  quotes with the quotes inside doubled; NaN and \<^verbatim>\<open>None\<close> are the empty field. The
  digest is replaced by an injective function. The inputs below hold no nested value.
\<close>

definition csv_minimal :: "string \<Rightarrow> string" where
  "csv_minimal s =
     (if list_ex (\<lambda>c. c \<in> set [CHR '','', CHR 0x22, CHR 0x0A, CHR 0x0D]) s
      then [CHR 0x22] @ concat (map (\<lambda>c. if c = CHR 0x22 then [c, c] else [c]) s) @ [CHR 0x22]
      else s)"

definition lib0 :: pylib where
  "lib0 = \<lparr>repr_nested = (\<lambda>v. []),
           json_dumps = (\<lambda>v. []),
           csv_field = (\<lambda>v. case v of PStr s \<Rightarrow> csv_minimal s | PAtom s \<Rightarrow> s | _ \<Rightarrow> []),
           sha256 = (\<lambda>s. s)\<rparr>"

definition check_A :: row where
  "check_A = [(''check_id'', PStr ''A''), (''check_name'', PStr ''a''),
              (''target_table'', PStr ''orders'')]"

definition check_B :: row where
  "check_B = [(''check_id'', PStr ''B''), (''check_name'', PStr ''b''),
              (''target_table'', PStr ''users,orders'')]"

definition check_C :: row where
  "check_C = [(''check_id'', PStr ''C''), (''check_name'', PStr ''c''),
              (''target_table'', PStr ''events'')]"

definition registry_ABC :: "row list" where
  "registry_ABC = [check_A, check_B, check_C]"

definition tables_now :: "string \<Rightarrow> csv_file option" where
  "tables_now = map_of [(''events'', Header [''e'']), (''orders'', Header [''o'']),
                        (''users'', Header [''u'', ''v''])]"



text \<open>A fresh cache directory.\<close>

definition state_fresh :: "string fs" where
  "state_fresh =
     \<lparr>checks_json = Some (Parsed (DObjects registry_ABC)),
      data_dir = tables_now,
      checks_last_csv = None,
      schema_cols_cache = None,
      workflow_cache = None,
      writes = []\<rparr>"


text \<open>An oracle that raises on check B and answers every other check.\<close>

definition agent_fails_on_B :: "string agent" where
  "agent_fails_on_B chk schema_context =
     (if row_get chk ''check_id'' = PStr ''B'' then Inl ''boom'' else Inr (''plan'', ''trace''))"

definition agent_ok :: "string agent" where
  "agent_ok chk schema_context = Inr (''plan'', ''trace'')"

definition clock0 :: "nat \<Rightarrow> string" where
  "clock0 n = ''2025-01-01T00:00:00+00:00''"

text \<open>
  Two registries with the same two rows in opposite order. After the columns are sorted
  both rows have the sort key \<^verbatim>\<open>x|y|z\<close>.
\<close>

definition registry_tie :: "row list" where
  "registry_tie = [[(''a'', PStr ''x|y''), (''b'', PStr ''z'')],
                   [(''a'', PStr ''x''), (''b'', PStr ''y|z'')]]"

text \<open>A check whose \<^verbatim>\<open>target_table\<close> is the JSON list \<^verbatim>\<open>[" "]\<close>, and the same as a string.\<close>

definition check_blank_list :: row where
  "check_blank_list = [(''check_id'', PStr ''D''), (''check_name'', PStr ''d''),
                       (''target_table'', PList [PStr '' ''])]"

definition check_blank_str :: row where
  "check_blank_str = [(''check_id'', PStr ''D''), (''check_name'', PStr ''d''),
                      (''target_table'', PStr '' '')]"

text \<open>
  The registry holds that one check and is unchanged since the last run; there is no
  schema snapshot, so the schema detector reports a change.
\<close>

definition state_blank_target :: "string fs" where
  "state_blank_target =
     \<lparr>checks_json = Some (Parsed (DObjects [check_blank_list])),
      data_dir = tables_now,
      checks_last_csv = Some (stable_csv lib0 (DataFrame [check_blank_list])),
      schema_cols_cache = None,
      workflow_cache = None,
      writes = []\<rparr>"

text \<open>
  A registry of one check whose description holds a carriage return, as the JSON string
  \<^verbatim>\<open>"one\rtwo"\<close> gives it, on a fresh cache directory; and an oracle that always raises.
\<close>

definition check_E :: row where
  "check_E = [(''check_id'', PStr ''E''), (''check_name'', PStr ''e''),
              (''description'', PStr (''one'' @ [CHR 0x0D] @ ''two'')),
              (''target_table'', PStr ''users'')]"

definition state_cr :: "string fs" where
  "state_cr =
     \<lparr>checks_json = Some (Parsed (DObjects [check_E])),
      data_dir = tables_now,
      checks_last_csv = None,
      schema_cols_cache = None,
      workflow_cache = None,
      writes = []\<rparr>"

definition agent_down :: "string agent" where
  "agent_down chk schema_context = Inl ''down''"





section \<open>What the detectors read and write\<close>

lemma read_text_without_cr: "CHR 0x0D \<notin> set t \<Longrightarrow> read_text t = t"
  by (induction t rule: read_text.induct) auto

lemma pd_DataFrame_error: "pd_DataFrame doc = Inl e \<Longrightarrow> e = ValueError"
  by (cases doc) (auto split: if_splits)

lemma detect_checks_changes_InrD:
  assumes "detect_checks_changes L s = Inr (c, df, s1)"
  shows "\<exists>doc. checks_json s = Some (Parsed doc) \<and> pd_DataFrame doc = Inr df
           \<and> (case checks_last_csv s of
                 None \<Rightarrow> c \<and> s1 = write_checks_last (current_csv L df) s
               | Some on_disk \<Rightarrow>
                   c = (sha256 L (current_csv L df) \<noteq> sha256 L (read_text on_disk))
                   \<and> s1 = (if c then write_checks_last (current_csv L df) s else s))"
  using assms
  by (auto simp: detect_checks_changes_def Let_def
           split: option.splits json_file.splits sum.splits if_splits)

lemma detect_checks_changes_frame:
  assumes "detect_checks_changes L s = Inr (c, df, s1)"
  shows "checks_json s1 = checks_json s \<and> data_dir s1 = data_dir s
         \<and> schema_cols_cache s1 = schema_cols_cache s \<and> workflow_cache s1 = workflow_cache s"
  using detect_checks_changes_InrD[OF assms]
  by (auto simp: write_checks_last_def split: option.splits if_splits)

lemma detect_checks_changes_rerun:
  assumes "detect_checks_changes L s = Inr (c, df, s1)"
    and "checks_json s2 = checks_json s"
    and "checks_last_csv s2 = checks_last_csv s1"
    and "CHR 0x0D \<notin> set (current_csv L df)"
  shows "detect_checks_changes L s2 = Inr (False, df, s2)"
proof -
  from detect_checks_changes_InrD[OF assms(1)] obtain doc where
    d: "checks_json s = Some (Parsed doc)" "pd_DataFrame doc = Inr df"
    and k: "case checks_last_csv s of
              None \<Rightarrow> c \<and> s1 = write_checks_last (current_csv L df) s
            | Some on_disk \<Rightarrow>
                c = (sha256 L (current_csv L df) \<noteq> sha256 L (read_text on_disk))
                \<and> s1 = (if c then write_checks_last (current_csv L df) s else s)"
    by blast
  from k read_text_without_cr[OF assms(4)]
  have "\<exists>on_disk. checks_last_csv s1 = Some on_disk
          \<and> sha256 L (current_csv L df) = sha256 L (read_text on_disk)"
    by (auto simp: write_checks_last_def split: option.splits if_splits)
  with assms(2,3) d show ?thesis
    by (auto simp: detect_checks_changes_def Let_def)
qed

lemma read_schema_data_dir:
  "data_dir s2 = data_dir s \<Longrightarrow> read_schema s2 cur ts = read_schema s cur ts"
  by (induction ts arbitrary: cur) (auto simp: load_csv_def split: sum.splits)

lemma dict_eq_refl: "dict_eq a a"
  by (simp add: dict_eq_def list_all_iff)

lemma detect_schema_changes_frame:
  assumes "detect_schema_changes ts s = Inr (c, cur, s1)"
  shows "checks_json s1 = checks_json s \<and> data_dir s1 = data_dir s
         \<and> checks_last_csv s1 = checks_last_csv s \<and> workflow_cache s1 = workflow_cache s"
  using assms
  by (auto simp: detect_schema_changes_def write_schema_cache_def Let_def
           split: sum.splits option.splits json_file.splits if_splits)

lemma detect_schema_changes_rerun:
  assumes "detect_schema_changes ts s = Inr (c, cur, s1)"
    and "data_dir s2 = data_dir s"
    and "schema_cols_cache s2 = schema_cols_cache s1"
  shows "detect_schema_changes ts s2 = Inr (False, cur, s2)"
  using assms read_schema_data_dir[of s2 s "[]" ts]
  by (auto simp: detect_schema_changes_def write_schema_cache_def Let_def dict_eq_refl
           split: sum.splits option.splits json_file.splits if_splits)

lemma load_workflows_Inr: "\<exists>w. load_workflows s = Inr w"
  by (auto simp: load_workflows_def json_load_def split: option.splits json_file.splits)

section \<open>What a run reads and writes\<close>

lemma schedule_InrD:
  assumes "schedule L s = Inr p"
  shows "\<exists>c df s1 sc cur s2 w.
           detect_checks_changes L s = Inr (c, df, s1)
         \<and> detect_schema_changes (target_tables_of L df) s1 = Inr (sc, cur, s2)
         \<and> load_workflows s2 = Inr w
         \<and> p = \<lparr>p_checks_changed = c, p_schema_changed = sc, p_checks_df = df,
                 p_target_tables = target_tables_of L df, p_current_schema = cur,
                 p_workflows = w,
                 p_todo = checks_to_compile L c sc (target_tables_of L df) df,
                 p_state = s2\<rparr>"
  using assms
  by (auto simp: schedule_def Let_def split: sum.splits prod.splits)

lemma schedule_frame:
  assumes "schedule L s = Inr p"
  shows "checks_json (p_state p) = checks_json s \<and> data_dir (p_state p) = data_dir s
         \<and> workflow_cache (p_state p) = workflow_cache s"
proof -
  from schedule_InrD[OF assms] obtain c df s1 sc cur s2 w where
    a: "detect_checks_changes L s = Inr (c, df, s1)"
    and b: "detect_schema_changes (target_tables_of L df) s1 = Inr (sc, cur, s2)"
    and p: "p_state p = s2"
    by force
  from detect_checks_changes_frame[OF a] detect_schema_changes_frame[OF b] p
  show ?thesis by simp
qed

lemma schedule_rerun:
  assumes "schedule L s = Inr p"
    and "checks_json s2 = checks_json s"
    and "data_dir s2 = data_dir s"
    and "checks_last_csv s2 = checks_last_csv (p_state p)"
    and "schema_cols_cache s2 = schema_cols_cache (p_state p)"
    and "CHR 0x0D \<notin> set (current_csv L (p_checks_df p))"
  shows "\<exists>w. schedule L s2 =
           Inr \<lparr>p_checks_changed = False, p_schema_changed = False,
                p_checks_df = p_checks_df p, p_target_tables = p_target_tables p,
                p_current_schema = p_current_schema p, p_workflows = w,
                p_todo = [], p_state = s2\<rparr>"
proof -
  from schedule_InrD[OF assms(1)] obtain c df s1 sc cur s' w where
    a: "detect_checks_changes L s = Inr (c, df, s1)"
    and b: "detect_schema_changes (target_tables_of L df) s1 = Inr (sc, cur, s')"
    and p: "p_state p = s'" "p_checks_df p = df" "p_target_tables p = target_tables_of L df"
           "p_current_schema p = cur"
    by force
  from detect_schema_changes_frame[OF b] assms(4) p
  have "checks_last_csv s2 = checks_last_csv s1" by simp
  moreover from assms(6) p have "CHR 0x0D \<notin> set (current_csv L df)" by simp
  ultimately have a2: "detect_checks_changes L s2 = Inr (False, df, s2)"
    by (rule detect_checks_changes_rerun[OF a assms(2)])
  from detect_checks_changes_frame[OF a] assms(3)
  have "data_dir s2 = data_dir s1" by simp
  from detect_schema_changes_rerun[OF b this] assms(5) p
  have b2: "detect_schema_changes (target_tables_of L df) s2 = Inr (False, cur, s2)" by simp
  obtain w2 where "load_workflows s2 = Inr w2" using load_workflows_Inr by blast
  with a2 b2 p show ?thesis
    by (simp add: schedule_def checks_to_compile_def)
qed

lemma main_nothing_to_do:
  assumes "schedule L s = Inr p" and "p_todo p = []" and "p_state p = s"
  shows "snd (main L use_agent clock s) = s"
  using assms
  by (simp add: main_def compile_step_def split: sum.splits)

lemma main_final_state:
  assumes "schedule L s = Inr p" and "main L use_agent clock s = (r, s1)"
  shows "s1 = p_state p \<or> (\<exists>w. s1 = save_workflows w (p_state p))"
  using assms
  by (auto simp: main_def compile_step_def Let_def split: sum.splits prod.splits if_splits)

lemma read_schema_error:
  "read_schema s cur ts = Inl e \<Longrightarrow> \<exists>t. e = ReadCsvError t"
  by (induction ts arbitrary: cur)
     (auto simp: load_csv_def split: sum.splits option.splits csv_file.splits)

lemma detect_checks_changes_error:
  "detect_checks_changes L s = Inl x \<Longrightarrow> x \<noteq> OracleError msg"
  by (auto simp: detect_checks_changes_def Let_def dest: pd_DataFrame_error
           split: option.splits json_file.splits sum.splits)

lemma detect_schema_changes_error:
  "detect_schema_changes ts t = Inl x \<Longrightarrow> x \<noteq> OracleError msg"
  by (auto simp: detect_schema_changes_def Let_def dest: read_schema_error
           split: sum.splits option.splits json_file.splits)

lemma schedule_error:
  assumes "schedule L s = Inl (e, s')"
  shows "e \<noteq> OracleError msg"
proof (cases "detect_checks_changes L s")
  case (Inl x)
  with assms detect_checks_changes_error[OF Inl, of msg] show ?thesis
    by (simp add: schedule_def)
next
  case (Inr r)
  obtain c df s1 where r: "r = (c, df, s1)" by (cases r)
  show ?thesis
  proof (cases "detect_schema_changes (target_tables_of L df) s1")
    case (Inl x)
    with assms Inr r detect_schema_changes_error[OF Inl, of msg] show ?thesis
      by (simp add: schedule_def)
  next
    case b: (Inr q)
    obtain sc cur s2 where q: "q = (sc, cur, s2)" by (cases q)
    obtain w where "load_workflows s2 = Inr w" using load_workflows_Inr by blast
    with assms Inr r b q show ?thesis
      by (simp add: schedule_def Let_def)
  qed
qed

lemma summary_error: "summary w = Inl e \<Longrightarrow> e = IndexError"
  by (induction w rule: summary.induct) (auto split: list.splits sum.splits)

lemma main_OracleErrorD:
  assumes "main L use_agent clock s = (Inl (OracleError msg), s1)"
  shows "\<exists>p. schedule L s = Inr p \<and> p_state p = s1 \<and> p_todo p \<noteq> []"
proof (cases "schedule L s")
  case (Inl x)
  obtain e s' where x: "x = (e, s')" by (cases x)
  with Inl assms schedule_error[of L s e s' msg] show ?thesis
    by (simp add: main_def)
next
  case (Inr p)
  show ?thesis
  proof (cases "compile_step L use_agent clock p")
    case (Inl x)
    obtain e s' where x: "x = (e, s')" by (cases x)
    with Inl Inr assms show ?thesis
      by (auto simp: main_def compile_step_def Let_def split: if_splits sum.splits prod.splits)
  next
    case c: (Inr y)
    obtain w n s' where y: "y = (w, n, s')" by (cases y)
    with c Inr assms summary_error[of w] show ?thesis
      by (auto simp: main_def split: sum.splits)
  qed
qed

lemma schedule_snapshots:
  assumes "schedule L s = Inr p"
  shows "(p_checks_changed p \<longrightarrow>
            checks_last_csv (p_state p) = Some (current_csv L (p_checks_df p)))
       \<and> (p_schema_changed p \<longrightarrow>
            schema_cols_cache (p_state p) = Some (Parsed (p_current_schema p)))"
proof -
  from schedule_InrD[OF assms] obtain c df s1 sc cur s2 where
    a: "detect_checks_changes L s = Inr (c, df, s1)"
    and b: "detect_schema_changes (target_tables_of L df) s1 = Inr (sc, cur, s2)"
    and p: "p_state p = s2" "p_checks_df p = df" "p_current_schema p = cur"
           "p_checks_changed p = c" "p_schema_changed p = sc"
    by force
  from detect_checks_changes_InrD[OF a]
  have "c \<longrightarrow> checks_last_csv s1 = Some (current_csv L df)"
    by (auto simp: write_checks_last_def split: option.splits if_splits)
  moreover from b have "sc \<longrightarrow> schema_cols_cache s2 = Some (Parsed cur)"
    by (auto simp: detect_schema_changes_def write_schema_cache_def Let_def
             split: sum.splits option.splits json_file.splits if_splits)
  ultimately show ?thesis
    using detect_schema_changes_frame[OF b] p by simp
qed

lemma compile_loop_failure:
  assumes "chk \<in> set todo" and "use_agent chk ctx = Inl msg"
  shows "\<exists>m. compile_loop L use_agent clock df ctx todo acc = Inl (OracleError m)"
  using assms
proof (induction todo arbitrary: acc)
  case Nil
  then show ?case by simp
next
  case (Cons a todo)
  obtain w n where acc: "acc = (w, n)" by (cases acc)
  show ?case
  proof (cases "use_agent a ctx")
    case (Inl m)
    with acc show ?thesis by simp
  next
    case (Inr out)
    with Cons.prems have "chk \<in> set todo" by auto
    from Cons.IH[OF this Cons.prems(2)] Inr acc show ?thesis by simp
  qed
qed

lemma rerun_quiet:
  assumes "schedule L s = Inr p" and "main L use_agent clock s = (r, s1)"
    and "CHR 0x0D \<notin> set (current_csv L (p_checks_df p))"
  shows "\<exists>w. schedule L s1 =
           Inr \<lparr>p_checks_changed = False, p_schema_changed = False,
                p_checks_df = p_checks_df p, p_target_tables = p_target_tables p,
                p_current_schema = p_current_schema p, p_workflows = w,
                p_todo = [], p_state = s1\<rparr>"
proof -
  from main_final_state[OF assms(1,2)] schedule_frame[OF assms(1)]
  have same: "checks_json s1 = checks_json s" "data_dir s1 = data_dir s"
    "checks_last_csv s1 = checks_last_csv (p_state p)"
    "schema_cols_cache s1 = schema_cols_cache (p_state p)"
    by (auto simp: save_workflows_def)
  from schedule_rerun[OF assms(1) same assms(3)] show ?thesis .
qed





lemma of_char_eq_num: "((of_char c :: nat) = n) \<longleftrightarrow> (n < 256 \<and> c = char_of n)"
proof
  assume a: "(of_char c :: nat) = n"
  have "(of_char c :: nat) < 256" by (rule nat_of_char_less_256)
  moreover have "char_of (of_char c :: nat) = c" by (rule char_of_char)
  ultimately show "n < 256 \<and> c = char_of n" using a by simp
next
  assume "n < 256 \<and> c = char_of n"
  then show "(of_char c :: nat) = n" by simp
qed

lemma space_codes:
  "char_of (9::nat) = CHR 0x09" "char_of (10::nat) = CHR 0x0A" "char_of (11::nat) = CHR 0x0B"
  "char_of (12::nat) = CHR 0x0C" "char_of (13::nat) = CHR 0x0D" "char_of (28::nat) = CHR 0x1C"
  "char_of (29::nat) = CHR 0x1D" "char_of (30::nat) = CHR 0x1E" "char_of (31::nat) = CHR 0x1F"
  "char_of (32::nat) = CHR 0x20"
  by code_simp+

lemma is_space_code:
  "is_space c = ((of_char c :: nat) \<in> {9, 10, 11, 12, 13, 28, 29, 30, 31, 32})"
  by (simp add: is_space_def of_char_eq_num space_codes)

lemma lower_char_code:
  "(of_char (lower_char c) :: nat) =
     (if 65 \<le> (of_char c :: nat) \<and> (of_char c :: nat) \<le> 90 then of_char c + 32 else of_char c)"
  by (simp add: lower_char_def less_eq_char_def)

lemma lower_char_idem: "lower_char (lower_char c) = lower_char c"
proof -
  have "(of_char (lower_char (lower_char c)) :: nat) = of_char (lower_char c)"
    by (simp add: lower_char_code)
  then show ?thesis by simp
qed

lemma is_space_lower_char: "is_space (lower_char c) = is_space c"
  by (auto simp: is_space_code lower_char_code)

lemma strip_no_leading_space: "strip s \<noteq> [] \<Longrightarrow> \<not> is_space (hd (strip s))"
proof -
  assume ne: "strip s \<noteq> []"
  let ?y = "dropWhile is_space s"
  let ?z = "dropWhile is_space (rev ?y)"
  from ne have z: "?z \<noteq> []" by (simp add: strip_def)
  have "rev ?y = takeWhile is_space (rev ?y) @ ?z" by simp
  with z have "last ?z = last (rev ?y)" by (metis last_appendR)
  moreover have y: "?y \<noteq> []"
  proof
    assume "?y = []"
    then have "?z = dropWhile is_space (rev [])" by (rule arg_cong)
    then have "?z = []" by (simp only: rev.simps dropWhile.simps)
    with z show False by blast
  qed
  ultimately have "last ?z = hd ?y" by (simp add: last_rev)
  moreover from y have "\<not> is_space (hd ?y)" by (rule hd_dropWhile)
  ultimately show ?thesis using z by (simp add: strip_def hd_rev)
qed

lemma strip_no_trailing_space: "strip s \<noteq> [] \<Longrightarrow> \<not> is_space (last (strip s))"
proof -
  assume ne: "strip s \<noteq> []"
  let ?z = "dropWhile is_space (rev (dropWhile is_space s))"
  from ne have z: "?z \<noteq> []" by (simp add: strip_def)
  then have "\<not> is_space (hd ?z)" by (rule hd_dropWhile)
  with z show ?thesis by (simp add: strip_def last_rev)
qed

lemma strip_fixed:
  assumes "t = [] \<or> (\<not> is_space (hd t) \<and> \<not> is_space (last t))"
  shows "strip t = t"
proof (cases t)
  case Nil
  then show ?thesis by (simp add: strip_def)
next
  case (Cons a u)
  with assms have h: "\<not> is_space (hd t)" and l: "\<not> is_space (last t)" by auto
  from Cons h have 1: "dropWhile is_space t = t" by simp
  from Cons have ne: "t \<noteq> []" by simp
  then have "rev t \<noteq> []" by simp
  moreover from ne l have "\<not> is_space (hd (rev t))" by (simp add: hd_rev)
  ultimately have 2: "dropWhile is_space (rev t) = rev t"
    by (cases "rev t") auto
  from 1 2 show ?thesis by (simp add: strip_def)
qed

lemma strip_idem: "strip (strip s) = strip s"
  using strip_no_leading_space[of s] strip_no_trailing_space[of s]
  by (intro strip_fixed) blast

lemma strip_lower: "strip (lower s) = lower (strip s)"
proof -
  have "is_space \<circ> lower_char = is_space"
    by (rule ext) (simp add: is_space_lower_char)
  then show ?thesis
    by (simp add: strip_def lower_def dropWhile_map rev_map)
qed

lemma lower_idem: "lower (lower s) = lower s"
  by (simp add: lower_def lower_char_idem)

lemma parse_targets_str_entries:
  assumes "e \<in> set (parse_targets L (PStr s))"
  shows "e \<noteq> [] \<and> strip e = e \<and> lower e = e"
proof -
  from assms obtain x where x: "strip x \<noteq> []" "e = lower (strip x)" by auto
  then show ?thesis
    by (simp add: strip_lower strip_idem lower_idem) (simp add: lower_def)
qed

lemma parse_targets_list:
  "parse_targets L (PList xs) = map (\<lambda>x. lower (strip (py_str L x))) xs"
  by simp

lemma schema_rule_needs_target:
  assumes "row \<in> set (select_checks L False changed_tables checks_df)"
  shows "parse_targets L (row_get row ''target_table'') \<noteq> []"
  using assms by (auto simp: select_checks_def)

lemma map_insort_key:
  "map p (insort_key (\<lambda>a. k (p a)) x xs) = insort_key k (p x) (map p xs)"
  by (induction xs) simp_all

lemma map_sort_key:
  "map p (sort_key (\<lambda>a. k (p a)) xs) = sort_key k (map p xs)"
  by (induction xs) (simp_all add: map_insort_key)

lemma map_factor:
  assumes "map p xs = map p ys" and "\<And>a b. p a = p b \<Longrightarrow> f a = f b"
  shows "map f xs = map f ys"
  using assms(1)
proof (induction xs arbitrary: ys)
  case Nil
  then show ?case by simp
next
  case (Cons a xs)
  then obtain b zs where "ys = b # zs" "p a = p b" "map p xs = map p zs" by auto
  with Cons.IH[of zs] assms(2)[of a b] show ?case by simp
qed

lemma sorted_rows_unique:
  assumes "mset (map p xs) = mset (map p ys)"
    and "inj_on k (set (map p xs))"
    and "\<And>a b. p a = p b \<Longrightarrow> f a = f b"
  shows "map f (sort_key (\<lambda>a. k (p a)) xs) = map f (sort_key (\<lambda>a. k (p a)) ys)"
proof -
  have "sort_key k (map p xs) = sort_key k (map p ys)"
  proof (rule sort_key_inj_key_eq)
    from assms(1) show "mset (map p xs) = mset (sort_key k (map p ys))" by simp
    show "inj_on k (set (map p xs))" by (rule assms(2))
    show "sorted (map k (sort_key k (map p ys)))" by simp
  qed
  then have "map p (sort_key (\<lambda>a. k (p a)) xs) = map p (sort_key (\<lambda>a. k (p a)) ys)"
    by (simp only: map_sort_key)
  then show ?thesis by (rule map_factor) (rule assms(3))
qed

lemma stable_csv_order_independent:
  assumes same_columns: "mset (columns df1) = mset (columns df2)"
    and same_rows:
      "mset (map (\<lambda>r. map (cell r) (sort (columns df1))) (rows df1))
       = mset (map (\<lambda>r. map (cell r) (sort (columns df1))) (rows df2))"
    and distinct_keys:
      "inj_on (\<lambda>v. join ''|'' (map (\<lambda>x. py_str L (jsonify L x)) v))
              (set (map (\<lambda>r. map (cell r) (sort (columns df1))) (rows df1)))"
  shows "stable_csv L df1 = stable_csv L df2"
proof -
  let ?cols = "sort (columns df1)"
  let ?cells = "\<lambda>r. map (cell r) ?cols"
  let ?key = "\<lambda>v. join ''|'' (map (\<lambda>x. py_str L (jsonify L x)) v)"
  let ?line = "\<lambda>r. csv_line (map (\<lambda>c. csv_field L (jsonify L (cell r c)))
                                   (filter (\<lambda>c. c \<noteq> ''_sortkey'') ?cols))"
  have c: "sort (columns df2) = ?cols"
    by (rule properties_for_sort) (simp_all add: same_columns)
  have k: "sortkey L ?cols = (\<lambda>r. ?key (?cells r))"
    by (rule ext) (simp add: sortkey_def o_def)
  have f: "?line a = ?line b" if "?cells a = ?cells b" for a b
  proof -
    from that have "\<forall>c \<in> set ?cols. cell a c = cell b c" by simp
    then have "map (\<lambda>c. csv_field L (jsonify L (cell a c))) (filter (\<lambda>c. c \<noteq> ''_sortkey'') ?cols)
             = map (\<lambda>c. csv_field L (jsonify L (cell b c))) (filter (\<lambda>c. c \<noteq> ''_sortkey'') ?cols)"
      by (intro map_cong) auto
    then show ?thesis by (rule arg_cong)
  qed
  have "map ?line (sort_key (\<lambda>r. ?key (?cells r)) (rows df1))
      = map ?line (sort_key (\<lambda>r. ?key (?cells r)) (rows df2))"
    by (rule sorted_rows_unique[OF same_rows distinct_keys f])
  with c k show ?thesis
    by (simp add: stable_csv_def Let_def)
qed

section \<open>Runs on a registry whose canonical CSV holds no carriage return\<close>

lemma detectors_idempotent_without_cr:
  "(detect_checks_changes L s = Inr (c, df, s') \<longrightarrow> CHR 0x0D \<notin> set (current_csv L df) \<longrightarrow>
      detect_checks_changes L s' = Inr (False, df, s'))
   \<and> (detect_schema_changes ts s = Inr (sc, cur, s'') \<longrightarrow>
      detect_schema_changes ts s'' = Inr (False, cur, s''))
   \<and> (schedule L s = Inr p \<longrightarrow> main L use_agent clock s = (r, s1) \<longrightarrow>
        CHR 0x0D \<notin> set (current_csv L (p_checks_df p)) \<longrightarrow>
        (\<exists>w. schedule L s1 =
               Inr \<lparr>p_checks_changed = False, p_schema_changed = False,
                    p_checks_df = p_checks_df p, p_target_tables = p_target_tables p,
                    p_current_schema = p_current_schema p, p_workflows = w,
                    p_todo = [], p_state = s1\<rparr>)
        \<and> snd (main L use_agent' clock' s1) = s1)"
proof (intro conjI impI)
  assume a: "detect_checks_changes L s = Inr (c, df, s')"
    and n: "CHR 0x0D \<notin> set (current_csv L df)"
  from detect_checks_changes_frame[OF a]
  have "checks_json s' = checks_json s" by simp
  from detect_checks_changes_rerun[OF a this refl n]
  show "detect_checks_changes L s' = Inr (False, df, s')" .
next
  assume b: "detect_schema_changes ts s = Inr (sc, cur, s'')"
  from detect_schema_changes_frame[OF b]
  show "detect_schema_changes ts s'' = Inr (False, cur, s'')"
    by (intro detect_schema_changes_rerun[OF b]) simp_all
next
  assume p: "schedule L s = Inr p" and m: "main L use_agent clock s = (r, s1)"
    and n: "CHR 0x0D \<notin> set (current_csv L (p_checks_df p))"
  from rerun_quiet[OF p m n]
  show q: "\<exists>w. schedule L s1 =
               Inr \<lparr>p_checks_changed = False, p_schema_changed = False,
                    p_checks_df = p_checks_df p, p_target_tables = p_target_tables p,
                    p_current_schema = p_current_schema p, p_workflows = w,
                    p_todo = [], p_state = s1\<rparr>" .
  then obtain w where "schedule L s1 =
               Inr \<lparr>p_checks_changed = False, p_schema_changed = False,
                    p_checks_df = p_checks_df p, p_target_tables = p_target_tables p,
                    p_current_schema = p_current_schema p, p_workflows = w,
                    p_todo = [], p_state = s1\<rparr>" ..
  from main_nothing_to_do[OF this]
  show "snd (main L use_agent' clock' s1) = s1" by simp
qed

lemma abort_then_rerun_without_cr:
  assumes m: "main L use_agent clock s = (Inl (OracleError msg), s1)"
  shows "\<exists>q. schedule L s = Inr q \<and> p_state q = s1 \<and> p_todo q \<noteq> []
            \<and> (p_checks_changed q \<or> p_schema_changed q)
            \<and> (p_checks_changed q \<longrightarrow>
                  checks_last_csv s1 = Some (current_csv L (p_checks_df q)))
            \<and> (p_schema_changed q \<longrightarrow>
                  schema_cols_cache s1 = Some (Parsed (p_current_schema q)))
            \<and> workflow_cache s1 = workflow_cache s
            \<and> (CHR 0x0D \<notin> set (current_csv L (p_checks_df q)) \<longrightarrow>
                 (\<exists>q'. schedule L s1 = Inr q' \<and> \<not> p_checks_changed q'
                      \<and> \<not> p_schema_changed q' \<and> p_todo q' = [] \<and> p_state q' = s1)
                 \<and> snd (main L use_agent' clock' s1) = s1)"
proof -
  from main_OracleErrorD[OF m] obtain q where
    q: "schedule L s = Inr q" "p_state q = s1" "p_todo q \<noteq> []" by blast
  from schedule_InrD[OF q(1)] q(3) have c: "p_checks_changed q \<or> p_schema_changed q"
    by (auto simp: checks_to_compile_def split: if_splits)
  have r: "(\<exists>q'. schedule L s1 = Inr q' \<and> \<not> p_checks_changed q'
                      \<and> \<not> p_schema_changed q' \<and> p_todo q' = [] \<and> p_state q' = s1)
           \<and> snd (main L use_agent' clock' s1) = s1"
    if n: "CHR 0x0D \<notin> set (current_csv L (p_checks_df q))"
  proof -
    from rerun_quiet[OF q(1) m n] obtain w where
      w: "schedule L s1 =
            Inr \<lparr>p_checks_changed = False, p_schema_changed = False,
                 p_checks_df = p_checks_df q, p_target_tables = p_target_tables q,
                 p_current_schema = p_current_schema q, p_workflows = w,
                 p_todo = [], p_state = s1\<rparr>" by blast
    from main_nothing_to_do[OF w] w show ?thesis by simp
  qed
  from q c r schedule_snapshots[OF q(1)] schedule_frame[OF q(1)] show ?thesis
    by (intro exI[of _ q]) simp
qed

lemma rerun_on_registry_ABC_is_quiet:
  "\<exists>r s1. main lib0 agent_ok clock0 state_fresh = (r, s1)
      \<and> (\<exists>q. schedule lib0 s1 = Inr q \<and> \<not> p_checks_changed q \<and> \<not> p_schema_changed q
             \<and> p_todo q = [] \<and> p_state q = s1)
      \<and> snd (main lib0 agent_ok clock0 s1) = s1"
proof -
  have "\<not> isl (schedule lib0 state_fresh)" by code_simp
  then obtain p where p: "schedule lib0 state_fresh = Inr p"
    by (cases "schedule lib0 state_fresh") auto
  obtain r s1 where m: "main lib0 agent_ok clock0 state_fresh = (r, s1)"
    by (cases "main lib0 agent_ok clock0 state_fresh") auto
  have "p_checks_df (projr (schedule lib0 state_fresh)) = DataFrame registry_ABC"
    by code_simp
  moreover have "CHR 0x0D \<notin> set (current_csv lib0 (DataFrame registry_ABC))"
    by code_simp
  ultimately have n: "CHR 0x0D \<notin> set (current_csv lib0 (p_checks_df p))"
    using p by simp
  from rerun_quiet[OF p m n] obtain w where
    w: "schedule lib0 s1 =
          Inr \<lparr>p_checks_changed = False, p_schema_changed = False,
               p_checks_df = p_checks_df p, p_target_tables = p_target_tables p,
               p_current_schema = p_current_schema p, p_workflows = w,
               p_todo = [], p_state = s1\<rparr>" by blast
  from main_nothing_to_do[OF w, of agent_ok clock0] w m show ?thesis by simp
qed

section \<open>Claims\<close>

text \<open>
  C10. Loading the workflow cache never raises: a missing file and a file that
  \<^verbatim>\<open>json.load\<close> cannot parse both give the empty cache, and a parseable file gives
  its parsed content.
\<close>

theorem load_workflows_never_raises:
  "load_workflows s =
     Inr (case workflow_cache s of
            None \<Rightarrow> []
          | Some Unparseable \<Rightarrow> []
          | Some (Parsed cached) \<Rightarrow> cached)"
  by (simp add: load_workflows_def json_load_def split: option.splits json_file.splits)

text \<open>
  C3. The schema detector is idempotent, and so is the registry detector as long as
  the canonical CSV of the registry holds no carriage return
  (\<open>detectors_idempotent_without_cr\<close>). The registry snapshot, however, is written and
  read back in text mode: a carriage return in a cell is on disk after the write and
  comes back as a line feed, so the digest of the snapshot never equals the digest of
  the current CSV. On the registry of the one check E, whose description is
  \<^verbatim>\<open>one\rtwo\<close>, the first run completes; the second run, with nothing changed, reports
  a registry change, writes the snapshot and the workflow cache again and selects E.
\<close>

theorem rerun_with_carriage_return_reports_change:
  "\<not> isl (fst (main lib0 agent_ok clock0 state_cr))
   \<and> checks_last_csv (snd (main lib0 agent_ok clock0 state_cr))
       = Some (stable_csv lib0 (DataFrame [check_E]))
   \<and> read_text (stable_csv lib0 (DataFrame [check_E])) \<noteq> stable_csv lib0 (DataFrame [check_E])
   \<and> fst (projr (detect_checks_changes lib0 (snd (main lib0 agent_ok clock0 state_cr))))
   \<and> p_checks_changed (projr (schedule lib0 (snd (main lib0 agent_ok clock0 state_cr))))
   \<and> \<not> p_schema_changed (projr (schedule lib0 (snd (main lib0 agent_ok clock0 state_cr))))
   \<and> map (key_for lib0)
         (p_todo (projr (schedule lib0 (snd (main lib0 agent_ok clock0 state_cr))))) = [''E::e'']
   \<and> writes (snd (main lib0 agent_ok clock0 (snd (main lib0 agent_ok clock0 state_cr))))
       = writes (snd (main lib0 agent_ok clock0 state_cr)) @ [CHECKS_LAST_CSV, WORKFLOW_CACHE]"
  by code_simp






text \<open>
  C5. Both snapshots are written by the detectors, before the first call of the oracle
  (\<open>schedule_snapshots\<close>), and after a run that ends with an exception of the oracle
  the next run on the same registry and tables reports no change and selects nothing,
  as long as the canonical CSV of the registry holds no carriage return
  (\<open>abort_then_rerun_without_cr\<close>). With the registry of the check E, whose
  description is \<^verbatim>\<open>one\rtwo\<close>, on a fresh cache directory and an oracle that raises:
  the run ends with the exception, both snapshots are on disk and the workflow cache
  is still absent; the next run reads the registry snapshot back with the carriage
  return turned into a line feed, reports a registry change and selects E again.
\<close>

theorem abort_then_rerun_with_carriage_return:
  "checks_last_csv state_cr = None \<and> schema_cols_cache state_cr = None
   \<and> fst (main lib0 agent_down clock0 state_cr) = Inl (OracleError ''down'')
   \<and> checks_last_csv (snd (main lib0 agent_down clock0 state_cr))
       = Some (stable_csv lib0 (DataFrame [check_E]))
   \<and> schema_cols_cache (snd (main lib0 agent_down clock0 state_cr))
       = Some (Parsed [(''users'', [''u'', ''v''])])
   \<and> writes (snd (main lib0 agent_down clock0 state_cr)) = [CHECKS_LAST_CSV, SCHEMA_COLS_CACHE]
   \<and> workflow_cache (snd (main lib0 agent_down clock0 state_cr)) = None
   \<and> p_checks_changed (projr (schedule lib0 (snd (main lib0 agent_down clock0 state_cr))))
   \<and> \<not> p_schema_changed (projr (schedule lib0 (snd (main lib0 agent_down clock0 state_cr))))
   \<and> map (key_for lib0)
         (p_todo (projr (schedule lib0 (snd (main lib0 agent_down clock0 state_cr))))) = [''E::e'']"
  by code_simp

text \<open>
  C2, as the code has it. The call of the oracle is not guarded: when it raises for a
  check that was selected, \<open>main\<close> ends with that exception before \<open>save_workflows\<close>
  is reached. The workflow cache file then holds what it held before the run, for the
  failing check and for every other check; the entries compiled earlier in the run are
  not persisted.
\<close>

theorem oracle_failure_aborts_run:
  assumes "schedule L s = Inr p"
    and "chk \<in> set (p_todo p)"
    and "use_agent chk (schema_context_of (p_current_schema p) (p_target_tables p)) = Inl msg"
  shows "\<exists>m. main L use_agent clock s = (Inl (OracleError m), p_state p)
           \<and> workflow_cache (p_state p) = workflow_cache s"
proof -
  from assms(2) have ne: "p_todo p \<noteq> []" by auto
  from compile_loop_failure[of chk "p_todo p" use_agent
         "schema_context_of (p_current_schema p) (p_target_tables p)" msg L clock
         "p_checks_df p" "(p_workflows p, 0)"] assms(2,3)
  obtain m where
    "compile_loop L use_agent clock (p_checks_df p)
       (schema_context_of (p_current_schema p) (p_target_tables p)) (p_todo p) (p_workflows p, 0)
     = Inl (OracleError m)" by blast
  with ne assms(1) have "main L use_agent clock s = (Inl (OracleError m), p_state p)"
    by (simp add: main_def compile_step_def Let_def)
  with schedule_frame[OF assms(1)] show ?thesis by blast
qed

theorem oracle_failure_aborts_run_witness:
  "\<exists>p m. schedule lib0 state_fresh = Inr p \<and> check_B \<in> set (p_todo p)
      \<and> main lib0 agent_fails_on_B clock0 state_fresh = (Inl (OracleError m), p_state p)
      \<and> workflow_cache (p_state p) = workflow_cache state_fresh"
proof -
  have "\<not> isl (schedule lib0 state_fresh)" by code_simp
  then obtain p where p: "schedule lib0 state_fresh = Inr p"
    by (cases "schedule lib0 state_fresh") auto
  have "p_todo (projr (schedule lib0 state_fresh)) = [check_A, check_B, check_C]"
    by code_simp
  with p have b: "check_B \<in> set (p_todo p)" by simp
  have f: "agent_fails_on_B check_B ctx = Inl ''boom''" for ctx
    by (simp add: agent_fails_on_B_def check_B_def row_get_def)
  from oracle_failure_aborts_run[of lib0 state_fresh p check_B agent_fails_on_B "''boom''" clock0]
       p b f
  show ?thesis by blast
qed

text \<open>
  A first run on fresh state in which A, B and C are selected and the oracle answers
  A and C and raises on B: the run ends with the exception and the cache file is still
  absent, with no entry for A or C.
\<close>

theorem failure_isolation_counterexample:
  "map (key_for lib0) (p_todo (projr (schedule lib0 state_fresh))) = [''A::a'', ''B::b'', ''C::c'']
   \<and> agent_fails_on_B check_A [] = Inr (''plan'', ''trace'')
   \<and> agent_fails_on_B check_B [] = Inl ''boom''
   \<and> agent_fails_on_B check_C [] = Inr (''plan'', ''trace'')
   \<and> fst (main lib0 agent_fails_on_B clock0 state_fresh) = Inl (OracleError ''boom'')
   \<and> workflow_cache (snd (main lib0 agent_fails_on_B clock0 state_fresh)) = None"
  by code_simp




text \<open>
  C9. For \<^verbatim>\<open>None\<close> the result is empty and for a string the pieces between commas are
  trimmed, lower-cased and dropped when blank (\<open>parse_targets_str_entries\<close>), and the
  schema rule never selects a check whose target list is empty
  (\<open>schema_rule_needs_target\<close>). The list branch does not drop blank entries: the
  JSON list \<^verbatim>\<open>[" "]\<close> is normalised to one empty table name, where the string
  \<^verbatim>\<open>" "\<close> is normalised to no table at all; the empty name becomes a target table,
  and the check is selected by the schema rule.
\<close>

theorem parse_targets_list_keeps_blank_entries:
  "parse_targets L (PList [PStr ''users'', PStr '' '']) = [''users'', []]
   \<and> parse_targets L (PStr ''users, '') = [''users'']
   \<and> parse_targets L (row_get check_blank_list ''target_table'') = [[]]
   \<and> parse_targets L (row_get check_blank_str ''target_table'') = []
   \<and> target_tables_of L (DataFrame [check_blank_list]) = [[]]
   \<and> select_checks L False (set (target_tables_of L (DataFrame [check_blank_list])))
        (DataFrame [check_blank_list]) = [check_blank_list]
   \<and> select_checks L False (set (target_tables_of L (DataFrame [check_blank_str])))
        (DataFrame [check_blank_str]) = []
   \<and> \<not> isl (schedule lib0 state_blank_target)
   \<and> \<not> p_checks_changed (projr (schedule lib0 state_blank_target))
   \<and> p_schema_changed (projr (schedule lib0 state_blank_target))
   \<and> p_todo (projr (schedule lib0 state_blank_target)) = [check_blank_list]"
  by code_simp

text \<open>
  C4. The canonical CSV does not depend on the order of the columns, and it does not
  depend on the order of the rows as long as rows that differ have different sort keys
  (\<open>stable_csv_order_independent\<close>). The sort key joins the cells of a row with
  \<^verbatim>\<open>|\<close>, so two rows that differ can have the same key, and \<^verbatim>\<open>sort_values\<close> then
  leaves them in the order of the input. The registry with the rows
  \<^verbatim>\<open>{"a": "x|y", "b": "z"}\<close> and \<^verbatim>\<open>{"a": "x", "b": "y|z"}\<close> and the registry with the
  same rows in the opposite order have different canonical CSVs.
\<close>

theorem stable_csv_depends_on_row_order:
  "mset registry_tie = mset (rev registry_tie)
   \<and> map (sortkey lib0 [''a'', ''b'']) (rows (DataFrame registry_tie)) = [''x|y|z'', ''x|y|z'']
   \<and> stable_csv lib0 (DataFrame registry_tie)
       = ''a,b'' @ [CHR 0x0A] @ ''x|y,z'' @ [CHR 0x0A] @ ''x,y|z'' @ [CHR 0x0A]
   \<and> stable_csv lib0 (DataFrame (rev registry_tie))
       = ''a,b'' @ [CHR 0x0A] @ ''x,y|z'' @ [CHR 0x0A] @ ''x|y,z'' @ [CHR 0x0A]
   \<and> stable_csv lib0 (DataFrame registry_tie) \<noteq> stable_csv lib0 (DataFrame (rev registry_tie))"
proof -
  have a: "stable_csv lib0 (DataFrame registry_tie)
       = ''a,b'' @ [CHR 0x0A] @ ''x|y,z'' @ [CHR 0x0A] @ ''x,y|z'' @ [CHR 0x0A]"
    by code_simp
  have b: "stable_csv lib0 (DataFrame (rev registry_tie))
       = ''a,b'' @ [CHR 0x0A] @ ''x,y|z'' @ [CHR 0x0A] @ ''x|y,z'' @ [CHR 0x0A]"
    by code_simp
  have k: "map (sortkey lib0 [''a'', ''b'']) (rows (DataFrame registry_tie))
           = [''x|y|z'', ''x|y|z'']"
    by code_simp
  have m: "mset registry_tie = mset (rev registry_tie)" by simp
  from a b k m show ?thesis by simp
qed

end
